theory Spec2Isabelle
  imports Main "HOL-Library.Sublist" "HOL-Library.AList"
begin

section \<open>JavaScript strings and arrays\<close>

text \<open>
  A JavaScript string is modelled as a \<^typ>\<open>string\<close>, one \<^typ>\<open>char\<close> per UTF-16 code unit,
  restricted to the code units below 256. The operations below are the ones of the standard
  library that \<^verbatim>\<open>generator.ts\<close> calls, with the behaviour ECMAScript gives them.
\<close>

definition nl :: char where
  "nl = CHR 0x0A"

text \<open>
  \<^verbatim>\<open>String.prototype.trim\<close> removes white space and line terminators from both ends. Below
  code unit 256 these are TAB, LF, VT, FF, CR, SPACE and NBSP.
\<close>

definition isWhiteSpace :: "char \<Rightarrow> bool" where
  "isWhiteSpace c \<longleftrightarrow> c \<in> set [CHR 0x09, CHR 0x0A, CHR 0x0B, CHR 0x0C, CHR 0x0D, CHR 0x20, CHR 0xA0]"

definition trimStart :: "string \<Rightarrow> string" where
  "trimStart s = dropWhile isWhiteSpace s"

definition trimEnd :: "string \<Rightarrow> string" where
  "trimEnd s = rev (dropWhile isWhiteSpace (rev s))"

definition trim :: "string \<Rightarrow> string" where
  "trim s = trimEnd (trimStart s)"

text \<open>\<^verbatim>\<open>s.split('\n')\<close>: the pieces between line feeds; never the empty array.\<close>

fun split_nl :: "string \<Rightarrow> string list" where
  "split_nl [] = [[]]"
| "split_nl (c # cs) =
     (if c = nl then [] # split_nl cs
      else (case split_nl cs of [] \<Rightarrow> [[c]] | l # ls \<Rightarrow> (c # l) # ls))"

text \<open>\<^verbatim>\<open>lines.join('\n')\<close>.\<close>

fun join_nl :: "string list \<Rightarrow> string" where
  "join_nl [] = []"
| "join_nl [l] = l"
| "join_nl (l # l' # ls) = l @ nl # join_nl (l' # ls)"

text \<open>\<^verbatim>\<open>Array.prototype.indexOf\<close>: the first index holding the value, or \<open>-1\<close>.\<close>

fun indexOf :: "'a list \<Rightarrow> 'a \<Rightarrow> int" where
  "indexOf [] x = -1"
| "indexOf (y # ys) x =
     (if y = x then 0 else (let i = indexOf ys x in if i = -1 then -1 else i + 1))"

text \<open>
  \<^verbatim>\<open>Array.prototype.slice(start, end)\<close>: a negative index counts from the end, both indices
  are clamped to the array, and an empty range gives the empty array.
\<close>

definition relativeIndex :: "int \<Rightarrow> int \<Rightarrow> nat" where
  "relativeIndex len i = nat (if i < 0 then max (len + i) 0 else min i len)"

definition slice :: "'a list \<Rightarrow> int \<Rightarrow> int \<Rightarrow> 'a list" where
  "slice xs start end =
     (let len = int (length xs); k = relativeIndex len start; e = relativeIndex len end
      in take (e - k) (drop k xs))"

text \<open>
  \<^verbatim>\<open>Array.prototype.splice(start, deleteCount)\<close> without inserted items: the array that is
  left. The delete count is clamped between 0 and the number of elements from \<open>start\<close> on.
\<close>

definition splice :: "'a list \<Rightarrow> int \<Rightarrow> int \<Rightarrow> 'a list" where
  "splice xs start deleteCount =
     (let len = int (length xs); k = relativeIndex len start;
          d = nat (min (max deleteCount 0) (len - int k))
      in take k xs @ drop (k + d) xs)"

text \<open>\<^verbatim>\<open>String.prototype.includes\<close>: the pattern occurs somewhere in the string.\<close>

fun includesStr :: "string \<Rightarrow> string \<Rightarrow> bool" where
  "includesStr [] p = (p = [])"
| "includesStr (c # cs) p = (prefix p (c # cs) \<or> includesStr cs p)"

text \<open>
  \<^verbatim>\<open>String.prototype.replace(pattern, replacement)\<close> with a string pattern: only the first
  occurrence of the pattern is replaced, wherever it is. (The replacement patterns introduced
  by a dollar sign are not modelled; the source passes the empty replacement.)
\<close>

fun replace :: "string \<Rightarrow> string \<Rightarrow> string \<Rightarrow> string" where
  "replace [] p r = (if p = [] then r else [])"
| "replace (c # cs) p r =
     (if prefix p (c # cs) then r @ drop (length p) (c # cs) else c # replace cs p r)"

section \<open>Node's \<^verbatim>\<open>path.extname\<close>\<close>

text \<open>
  \<^verbatim>\<open>path.extname\<close> is a function of the Node library (POSIX flavour): trailing slashes are
  ignored, the last path component is taken, and its extension runs from its last dot to its
  end; the extension is empty when the component has no dot, when its only dot is its first
  character, and when the component is \<^verbatim>\<open>..\<close>.
\<close>

definition lastComponent :: "string \<Rightarrow> string" where
  "lastComponent p =
     rev (takeWhile (\<lambda>c. c \<noteq> CHR ''/'') (dropWhile (\<lambda>c. c = CHR ''/'') (rev p)))"

definition extname :: "string \<Rightarrow> string" where
  "extname p =
     (let b = lastComponent p;
          e = rev (takeWhile (\<lambda>c. c \<noteq> CHR ''.'') (rev b))
      in if b = ''..'' \<or> length e + 1 = length b \<or> CHR ''.'' \<notin> set b then []
         else CHR ''.'' # e)"

section \<open>The generator\<close>

subsection \<open>Construction\<close>

text \<open>
  Of the fields of \<^verbatim>\<open>Generator\<close> only \<^verbatim>\<open>force\<close> depends on the options; the summary file
  path is the constant \<^verbatim>\<open>./.autosummary/summary.json\<close>.
\<close>

record options =
  force_option :: "bool option"

record generator =
  force :: bool

definition summaryFilePath :: string where
  "summaryFilePath = ''./.autosummary'' @ ''/'' @ ''summary'' @ ''.json''"

text \<open>\<^verbatim>\<open>this.force = options?.force ?? true\<close>\<close>

definition Generator :: "options option \<Rightarrow> generator" where
  "Generator opts =
     \<lparr>force = (case opts of None \<Rightarrow> True
                | Some o' \<Rightarrow> (case force_option o' of None \<Rightarrow> True | Some b \<Rightarrow> b))\<rparr>"

subsection \<open>Marker dialects\<close>

definition getFileEnding :: "string \<Rightarrow> string" where
  "getFileEnding filePath = extname filePath"

definition getComponents :: "string \<Rightarrow> string option \<times> string option \<times> string option" where
  "getComponents filePath =
     (let e = getFileEnding filePath in
      if e = ''.ts'' \<or> e = ''.js'' \<or> e = ''.tsx'' \<or> e = ''.jsx''
      then (Some (''/** AUTO-SUMMARY'' @ '' **''), Some (''*** END-SUMMARY'' @ '' **/''), Some ''   '')
      else if e = ''.yaml'' \<or> e = ''.yml'' \<or> e = ''.sh''
      then (Some ''### AUTO-SUMMARY ###'', Some ''### END-SUMMARY ###'', Some ''#  '')
      else (None, None, None))"

subsection \<open>Removing, inserting and extracting a block\<close>

definition removeSummaryFromFileContent :: "string \<Rightarrow> string \<Rightarrow> string \<Rightarrow> string" where
  "removeSummaryFromFileContent fileContent header footer =
     (let lines = split_nl fileContent;
          headerLine = indexOf lines header;
          footerLine = indexOf lines footer
      in if headerLine = -1 \<or> footerLine = -1 then fileContent
         else join_nl (splice lines headerLine (footerLine - headerLine + 1)))"

text \<open>
  The regular expression \<^verbatim>\<open>/^#!.*/\<close> has no flag, so it matches exactly the strings that
  start with \<^verbatim>\<open>#!\<close>. Every element of the array is trimmed as a whole, the element that
  holds the comment too.
\<close>

definition shebangPattern :: "string \<Rightarrow> bool" where
  "shebangPattern s = prefix ''#!'' s"

definition prefixFileContent :: "string \<Rightarrow> string \<Rightarrow> string" where
  "prefixFileContent fileContent comment =
     (let lines = split_nl fileContent;
          lines' = (if shebangPattern (hd lines)
                    then (hd lines @ nl # comment) # tl lines
                    else comment # lines)
      in join_nl (map trim lines'))"

definition regexExtractSummary ::
  "string \<Rightarrow> string \<Rightarrow> string \<Rightarrow> string \<Rightarrow> string \<Rightarrow> string" where
  "regexExtractSummary filePath fileContent header footer prefix' =
     (let lines = split_nl fileContent;
          headerLine = indexOf lines header;
          footerLine = indexOf lines footer;
          summaryLines = slice lines (headerLine + 1) footerLine
      in join_nl (map (\<lambda>line. replace line prefix' []) summaryLines))"

subsection \<open>The summary document and the file system\<close>

text \<open>
  The values \<^verbatim>\<open>JSON.parse\<close> can return. An object keeps its members in a list, in the order
  they were added (JavaScript enumerates integer-like keys first; no lookup depends on the
  order). Numbers are restricted to the integers: the code only tests them for truthiness.
\<close>

datatype json =
    JNull
  | JBool bool
  | JNum int
  | JStr string
  | JArr "json list"
  | JObj "(string \<times> json) list"

fun truthy :: "json \<Rightarrow> bool" where
  "truthy JNull = False"
| "truthy (JBool b) = b"
| "truthy (JNum n) = (n \<noteq> 0)"
| "truthy (JStr s) = (s \<noteq> [])"
| "truthy (JArr xs) = True"
| "truthy (JObj ms) = True"

text \<open>
  Property access \<^verbatim>\<open>v[key]\<close>. The code reads two keys only: a file path that has one of the
  allowed extensions, and \<^verbatim>\<open>summary\<close>. Apart from the members of an object, no JSON value
  has a property of either name, so every other value gives \<^verbatim>\<open>undefined\<close>. The keys of a
  parsed object are distinct.
\<close>

fun getProp :: "json \<Rightarrow> string \<Rightarrow> json option" where
  "getProp (JObj ms) key = map_of ms key"
| "getProp v key = None"

text \<open>
  The project files are a map from path to content. The document at \<^const>\<open>summaryFilePath\<close> is
  kept apart from them, as the value its text parses to: \<^verbatim>\<open>JSON.stringify\<close> followed by
  \<^verbatim>\<open>JSON.parse\<close> gives the value back. A write to a file is taken to succeed.
\<close>

datatype document = Absent | Unparseable | Parsed json

record world =
  files :: "string \<rightharpoonup> string"
  summaryFile :: document

datatype event =
    ReadFile string
  | PathExists string
  | WriteFile string string
  | WriteSummary json
  | EnsureDir string
  | OracleCall string
  | Log string

datatype error =
    FileIOError string
  | CacheReadError
  | OracleRejected
  | FailedToGenerate
  | TypeError

subsection \<open>The summarizer oracle\<close>

text \<open>
  The chat completion request is fixed except for the user message, so the external service is
  a function of that message. It rejects, resolves to a falsy response, or resolves to a
  response with a list of choices, each with an optional message with an optional content.
\<close>

datatype message = Message "string option"

datatype choice = Choice "message option"

datatype response = Response "choice list"

datatype completion = Rejected | Resolved "response option"

type_synonym summarizer = "string \<Rightarrow> completion"

text \<open>Three backticks.\<close>

definition fence :: string where
  "fence = [CHR 0x60, CHR 0x60, CHR 0x60]"

definition userMessage :: "string \<Rightarrow> string" where
  "userMessage contentToSummarize =
     ''Summarize the following file:'' @ [nl, nl] @ fence @ [nl] @ contentToSummarize @ [nl] @ fence"

definition getSummaryFromAI :: "summarizer \<Rightarrow> string \<Rightarrow> string \<Rightarrow> error + string" where
  "getSummaryFromAI ai filePath contentToSummarize =
     (case ai (userMessage contentToSummarize) of
        Rejected \<Rightarrow> Inl OracleRejected
      | Resolved None \<Rightarrow> Inl FailedToGenerate
      | Resolved (Some (Response [])) \<Rightarrow> Inl TypeError
      | Resolved (Some (Response (Choice m # cs))) \<Rightarrow>
          (case m of
             None \<Rightarrow> Inr ''No summary provided''
           | Some (Message None) \<Rightarrow> Inr ''No summary provided''
           | Some (Message (Some content)) \<Rightarrow>
               (if trim content = [] then Inr ''No summary provided'' else Inr (trim content))))"

subsection \<open>Annotating one file\<close>

definition getExistingCapturedSummaries :: "world \<Rightarrow> (error + json) \<times> event list" where
  "getExistingCapturedSummaries w =
     (case summaryFile w of
        Absent \<Rightarrow> (Inr (JObj []), [PathExists summaryFilePath])
      | Unparseable \<Rightarrow> (Inl CacheReadError, [PathExists summaryFilePath, ReadFile summaryFilePath])
      | Parsed capturedSummaries \<Rightarrow>
          (Inr (if truthy capturedSummaries then capturedSummaries else JObj []),
           [PathExists summaryFilePath, ReadFile summaryFilePath]))"

definition allowedExtensions :: "string list" where
  "allowedExtensions = [''.ts'', ''.js'', ''.json'', ''.tsx'', ''.jsx'', ''.yaml'', ''.yml'', ''.sh'']"

definition embedExclusions :: "string list" where
  "embedExclusions = [''.json'']"

text \<open>
  \<^verbatim>\<open>capturedSummaries[filePath] && capturedSummaries[filePath].summary\<close>: the value assigned
  to \<^verbatim>\<open>summary\<close> when the condition holds, \<^verbatim>\<open>undefined\<close> (\<^const>\<open>None\<close>) otherwise.
\<close>

definition capturedSummary :: "json \<Rightarrow> string \<Rightarrow> json option" where
  "capturedSummary capturedSummaries filePath =
     (case getProp capturedSummaries filePath of
        None \<Rightarrow> None
      | Some entry \<Rightarrow>
          (if truthy entry
           then (case getProp entry ''summary'' of
                   None \<Rightarrow> None
                 | Some s \<Rightarrow> if truthy s then Some s else None)
           else None))"

text \<open>A template literal prints \<^verbatim>\<open>undefined\<close> for a missing value.\<close>

definition interpolate :: "string option \<Rightarrow> string" where
  "interpolate v = (case v of None \<Rightarrow> ''undefined'' | Some s \<Rightarrow> s)"

text \<open>A string is truthy when it is defined and not empty.\<close>

definition truthyStr :: "string option \<Rightarrow> bool" where
  "truthyStr v = (case v of None \<Rightarrow> False | Some s \<Rightarrow> s \<noteq> [])"

text \<open>
  The comment that \<^verbatim>\<open>summarizeFile\<close> builds from the new summary. Its body is
  \<^verbatim>\<open>summary.split('\n').map(line => line === '' ? `${prefix}${line}` : '')\<close>, joined and
  put between header and footer.
\<close>

definition bodyLines :: "string \<Rightarrow> string \<Rightarrow> string list" where
  "bodyLines prefix' summary' =
     map (\<lambda>line. if line = [] then prefix' @ line else []) (split_nl summary')"

definition composeComment ::
  "string option \<Rightarrow> string option \<Rightarrow> string option \<Rightarrow> string \<Rightarrow> string" where
  "composeComment header footer prefix' summary' =
     interpolate header @ [nl] @ join_nl (bodyLines (interpolate prefix') summary')
       @ [nl] @ interpolate footer @ [nl]"

text \<open>A result of \<^verbatim>\<open>summarizeFile\<close>: \<^verbatim>\<open>{ filePath, summary }\<close>.\<close>

record result =
  filePath :: string
  summary :: json

text \<open>
  \<^verbatim>\<open>summarizeFile\<close> returns the outcome (an error, a result, or \<^verbatim>\<open>undefined\<close>), the world it
  leaves and the effects it performed, in order. \<^verbatim>\<open>indexOf(undefined)\<close> is \<open>-1\<close>, so removing
  a block with an undefined marker leaves the content as it is.
\<close>

definition summarizeFile ::
  "generator \<Rightarrow> summarizer \<Rightarrow> world \<Rightarrow> string \<Rightarrow> (error + result option) \<times> world \<times> event list" where
  "summarizeFile g ai w path =
     (case files w path of
        None \<Rightarrow> (Inl (FileIOError path), w, [ReadFile path])
      | Some fileContent \<Rightarrow>
          (let contentToSummarize = fileContent;
               (captured, evs) = getExistingCapturedSummaries w;
               t = ReadFile path # evs;
               exclude = (getFileEnding path \<in> set embedExclusions)
           in case captured of
                Inl e \<Rightarrow> (Inl e, w, t)
              | Inr capturedSummaries \<Rightarrow>
                  if getFileEnding path \<notin> set allowedExtensions
                  then (Inr (Some \<lparr>filePath = path, summary = JStr ''Skipped. File type not supported.''\<rparr>),
                        w, t @ [Log (path @ '' Skipping.  File type not supported.'')])
                  else
                    (let summary0 = capturedSummary capturedSummaries path in
                     case (if exclude then summary0 else None) of
                       Some s \<Rightarrow>
                         (Inr (Some \<lparr>filePath = path, summary = s\<rparr>), w,
                          t @ [Log (path @ '': Skipped. Summary exists in storage. Filetype excluded.'')])
                     | None \<Rightarrow>
                         (let (header, footer, prefix') = getComponents path in
                          if truthyStr header \<and> truthyStr footer \<and> truthyStr prefix'
                             \<and> includesStr fileContent (interpolate header)
                             \<and> includesStr fileContent (interpolate footer) \<and> \<not> force g
                          then (Inr (Some \<lparr>filePath = path,
                                  summary = JStr (regexExtractSummary path fileContent
                                    (interpolate header) (interpolate footer) (interpolate prefix'))\<rparr>),
                                w, t @ [Log (path @ '': Skipped. Summary exists in file. Updating Storage.'')])
                          else if summary0 = None \<or> force g
                          then
                            (case getSummaryFromAI ai path contentToSummarize of
                               Inl e \<Rightarrow> (Inl e, w, t @ [OracleCall (userMessage contentToSummarize)])
                             | Inr summary1 \<Rightarrow>
                                 (let comment = composeComment header footer prefix' summary1 in
                                  if \<not> exclude
                                  then
                                    (let fileContent1 =
                                           (case (header, footer) of
                                              (Some h, Some f) \<Rightarrow> removeSummaryFromFileContent fileContent h f
                                            | _ \<Rightarrow> fileContent);
                                         fileContent2 = prefixFileContent fileContent1 comment
                                     in (Inr (Some \<lparr>filePath = path, summary = JStr summary1\<rparr>),
                                         w\<lparr>files := (files w)(path \<mapsto> fileContent2)\<rparr>,
                                         t @ [OracleCall (userMessage contentToSummarize),
                                              WriteFile path fileContent2,
                                              Log (path @ '': Summary generated. Prepended to file.'')]))
                                  else (Inr (Some \<lparr>filePath = path, summary = JStr summary1\<rparr>), w,
                                        t @ [OracleCall (userMessage contentToSummarize),
                                             Log (path @ '': Summary generated. Filetype excluded.'')])))
                          else (Inr None, w, t)))))"

subsection \<open>The batch runner and the compiler\<close>

text \<open>
  The list of project files comes from the external file discovery. The loop of
  \<^verbatim>\<open>summarizeAllFiles\<close> pushes every result that is not \<^verbatim>\<open>undefined\<close>; an error in one file
  ends the loop.
\<close>

fun summarizeLoop ::
  "generator \<Rightarrow> summarizer \<Rightarrow> string list \<Rightarrow> result list \<Rightarrow> world \<Rightarrow> event list
     \<Rightarrow> (error + result list) \<times> world \<times> event list" where
  "summarizeLoop g ai [] summaries w t = (Inr summaries, w, t)"
| "summarizeLoop g ai (file # rest) summaries w t =
     (case summarizeFile g ai w file of
        (Inl e, w', t') \<Rightarrow> (Inl e, w', t @ t')
      | (Inr r, w', t') \<Rightarrow>
          summarizeLoop g ai rest
            (case r of None \<Rightarrow> summaries | Some s \<Rightarrow> summaries @ [s]) w' (t @ t'))"

definition summarizeAllFiles ::
  "generator \<Rightarrow> summarizer \<Rightarrow> string list \<Rightarrow> world \<Rightarrow> (error + result list) \<times> world \<times> event list" where
  "summarizeAllFiles g ai projectFiles w = summarizeLoop g ai projectFiles [] w []"

text \<open>
  \<^verbatim>\<open>summaries.reduce((obj, { filePath, summary }) => ({ ...obj, [filePath]: summary }), {})\<close>:
  a key that is present keeps its place and takes the new value; a new key goes last.
\<close>

definition summaryObject :: "result list \<Rightarrow> (string \<times> json) list" where
  "summaryObject summaries =
     foldl (\<lambda>obj r. AList.update (filePath r) (summary r) obj) [] summaries"

definition compileSummaries :: "result list \<Rightarrow> world \<Rightarrow> world \<times> event list" where
  "compileSummaries summaries w =
     (w\<lparr>summaryFile := Parsed (JObj (summaryObject summaries))\<rparr>,
      [WriteSummary (JObj (summaryObject summaries))])"

definition run ::
  "generator \<Rightarrow> summarizer \<Rightarrow> string list \<Rightarrow> world \<Rightarrow> (error + unit) \<times> world \<times> event list" where
  "run g ai projectFiles w =
     (case summarizeAllFiles g ai projectFiles w of
        (Inl e, w', t) \<Rightarrow> (Inl e, w', EnsureDir ''./.autosummary'' # t)
      | (Inr summaries, w', t) \<Rightarrow>
          (let (w'', t') = compileSummaries summaries w'
           in (Inr (), w'', EnsureDir ''./.autosummary'' # t @ t')))"

section \<open>Summary blocks in a content\<close>

text \<open>
  The number of blocks in a sequence of lines: a block opens at a header line and closes at the
  next footer line. The flag tells whether a block is open.
\<close>

fun countBlocks :: "string \<Rightarrow> string \<Rightarrow> bool \<Rightarrow> string list \<Rightarrow> nat" where
  "countBlocks h f inside [] = 0"
| "countBlocks h f inside (l # ls) =
     (if inside
      then (if l = f then Suc (countBlocks h f False ls) else countBlocks h f True ls)
      else (if l = h then countBlocks h f True ls else countBlocks h f False ls))"

definition blockCount :: "string \<Rightarrow> string \<Rightarrow> string \<Rightarrow> nat" where
  "blockCount h f c = countBlocks h f False (split_nl c)"

text \<open>No line is a marker, not even with white space around it.\<close>

definition markerFree :: "string \<Rightarrow> string \<Rightarrow> string list \<Rightarrow> bool" where
  "markerFree h f ls = list_all (\<lambda>l. trim l \<noteq> h \<and> trim l \<noteq> f) ls"

text \<open>
  A tidy content: either no line is a marker, or the first header line stands before the first
  footer line and no line before the one or after the other is a marker.
\<close>

definition tidy :: "string \<Rightarrow> string \<Rightarrow> string \<Rightarrow> bool" where
  "tidy h f c =
     (let ls = split_nl c; i = indexOf ls h; j = indexOf ls f
      in markerFree h f ls
         \<or> (0 \<le> i \<and> i < j \<and> markerFree h f (take (nat i) ls)
              \<and> markerFree h f (drop (nat j + 1) ls)))"

text \<open>
  Annotating the same file again and again: each run has its own generator and oracle, and
  finds the summary document in some state.
\<close>

fun reannotate :: "(generator \<times> summarizer \<times> document) list \<Rightarrow> world \<Rightarrow> string \<Rightarrow> world" where
  "reannotate [] w path = w"
| "reannotate ((g, ai, d) # runs) w path =
     reannotate runs (fst (snd (summarizeFile g ai (w\<lparr>summaryFile := d\<rparr>) path))) path"

section \<open>Evaluation and basic facts\<close>

lemmas model_defs =
  summarizeFile_def getExistingCapturedSummaries_def getFileEnding_def extname_def
  lastComponent_def allowedExtensions_def embedExclusions_def capturedSummary_def
  getComponents_def truthyStr_def interpolate_def getSummaryFromAI_def userMessage_def
  fence_def composeComment_def removeSummaryFromFileContent_def prefixFileContent_def
  regexExtractSummary_def splice_def slice_def relativeIndex_def trim_def trimStart_def
  trimEnd_def isWhiteSpace_def nl_def shebangPattern_def Generator_def summaryFilePath_def
  summarizeAllFiles_def compileSummaries_def summaryObject_def run_def bodyLines_def

subsection \<open>The compiled summary object\<close>

lemma summaryObject_Nil: "summaryObject [] = []"
  by (simp add: summaryObject_def)

lemma summaryObject_snoc:
  "summaryObject (rs @ [r]) = AList.update (filePath r) (summary r) (summaryObject rs)"
  by (simp add: summaryObject_def)

lemma map_of_summaryObject_snoc:
  "map_of (summaryObject (rs @ [r])) = (map_of (summaryObject rs))(filePath r \<mapsto> summary r)"
  by (simp add: summaryObject_snoc update_conv')

lemma map_of_summaryObject_Some:
  "map_of (summaryObject rs) p = Some v \<Longrightarrow> \<exists>r \<in> set rs. filePath r = p \<and> summary r = v"
proof (induction rs arbitrary: v rule: rev_induct)
  case Nil
  then show ?case by (simp add: summaryObject_Nil)
next
  case (snoc r rs)
  then show ?case
    by (cases "filePath r = p") (auto simp: map_of_summaryObject_snoc)
qed

lemma map_of_summaryObject_None:
  "map_of (summaryObject rs) p = None \<longleftrightarrow> p \<notin> filePath ` set rs"
proof (induction rs rule: rev_induct)
  case Nil
  then show ?case by (simp add: summaryObject_Nil)
next
  case (snoc r rs)
  then show ?case
    by (cases "filePath r = p") (auto simp: map_of_summaryObject_snoc)
qed

text \<open>
  What \<^const>\<open>compileSummaries\<close> writes, \<^const>\<open>capturedSummary\<close> cannot read: the members
  are the summary strings themselves, and a string has no \<^verbatim>\<open>summary\<close> property.
\<close>

lemma compiled_strings_not_read_back:
  assumes "\<forall>r \<in> set rs. \<exists>s. summary r = JStr s"
  shows "capturedSummary (JObj (summaryObject rs)) p = None"
proof (cases "map_of (summaryObject rs) p")
  case None
  then show ?thesis by (simp add: capturedSummary_def)
next
  case (Some v)
  then obtain r where "r \<in> set rs" "summary r = v"
    using map_of_summaryObject_Some by blast
  with assms obtain s where "v = JStr s" by auto
  with Some show ?thesis by (simp add: capturedSummary_def)
qed

subsection \<open>Facts about \<^const>\<open>summarizeFile\<close>\<close>

lemma getExisting_cases:
  "getExistingCapturedSummaries w = (r, evs) \<Longrightarrow>
     evs = [PathExists summaryFilePath] \<or> evs = [PathExists summaryFilePath, ReadFile summaryFilePath]"
  by (auto simp: getExistingCapturedSummaries_def split: document.splits)

lemma getSummaryFromAI_fails:
  assumes "ai (userMessage c) = Rejected \<or> ai (userMessage c) = Resolved None
           \<or> ai (userMessage c) = Resolved (Some (Response []))"
  shows "\<exists>e. getSummaryFromAI ai p c = Inl e"
  using assms by (auto simp: getSummaryFromAI_def)

text \<open>An absent, empty or blank message content gives the placeholder, not an error.\<close>

lemma getSummaryFromAI_placeholder:
  assumes "ai (userMessage c) = Resolved (Some (Response (Choice m # cs)))"
    and "m = None \<or> m = Some (Message None) \<or> (\<exists>s. m = Some (Message (Some s)) \<and> trim s = [])"
  shows "getSummaryFromAI ai p c = Inr ''No summary provided''"
  using assms by (auto simp: getSummaryFromAI_def)

lemma Generator_default:
  "opts = None \<or> opts = Some \<lparr>force_option = None\<rparr> \<Longrightarrow> force (Generator opts)"
  by (auto simp: Generator_def)

text \<open>The branch that reuses the summary found in the file logs its own message.\<close>

lemma step3_needs_force_off:
  assumes "force g"
  shows "Log (p @ '': Skipped. Summary exists in file. Updating Storage.'')
           \<notin> set (snd (snd (summarizeFile g ai w p)))"
proof -
  obtain r evs where ex: "getExistingCapturedSummaries w = (r, evs)"
    by (cases "getExistingCapturedSummaries w")
  have evs: "evs = [PathExists summaryFilePath] \<or> evs = [PathExists summaryFilePath, ReadFile summaryFilePath]"
    using getExisting_cases [OF ex] .
  show ?thesis
    using assms ex evs
    by (auto simp: summarizeFile_def Let_def split: sum.splits option.splits if_splits prod.splits)
qed

lemma force_calls_oracle:
  assumes "force g"
    and "files w p = Some c"
    and "getExistingCapturedSummaries w = (Inr caps, evs)"
    and "getFileEnding p \<in> set allowedExtensions"
    and "getFileEnding p \<notin> set embedExclusions \<or> capturedSummary caps p = None"
  shows "OracleCall (userMessage c) \<in> set (snd (snd (summarizeFile g ai w p)))"
  using assms
  by (auto simp: summarizeFile_def Let_def split: sum.splits option.splits if_splits prod.splits)

text \<open>What one call of \<^const>\<open>summarizeFile\<close> can change: the content of its own file only.\<close>

lemma summarizeFile_frame:
  assumes "summarizeFile g ai w q = (out, w', t)"
  shows "summaryFile w' = summaryFile w \<and> (\<forall>p. p \<noteq> q \<longrightarrow> files w' p = files w p)
         \<and> (\<forall>r. out = Inr (Some r) \<longrightarrow> filePath r = q)"
  using assms
  by (auto simp: summarizeFile_def Let_def split: sum.splits option.splits if_splits prod.splits)

lemma summarizeFile_undefined:
  assumes "files w path = Some c"
    and "getExistingCapturedSummaries w = (Inr caps, evs)"
    and "getFileEnding path \<in> set allowedExtensions"
    and "getFileEnding path \<notin> set embedExclusions"
    and "capturedSummary caps path = Some s"
    and "\<not> force g"
    and "getComponents path = (h, f, x)"
    and "\<not> includesStr c (interpolate h)"
    and "\<not> includesStr c (interpolate f)"
  shows "summarizeFile g ai w path = (Inr None, w, ReadFile path # evs)"
  using assms
  by (simp add: summarizeFile_def Let_def)

text \<open>
  A file for which \<^const>\<open>summarizeFile\<close> returns \<^verbatim>\<open>undefined\<close> and changes nothing is in no
  result of the loop, wherever it stands in the list of project files.
\<close>

lemma summarizeLoop_omits:
  assumes "\<And>w. files w path = Some c \<Longrightarrow> summaryFile w = d \<Longrightarrow>
             \<exists>t. summarizeFile g ai w path = (Inr None, w, t)"
  shows "files w path = Some c \<Longrightarrow> summaryFile w = d \<Longrightarrow> path \<notin> filePath ` set acc \<Longrightarrow>
         summarizeLoop g ai fs acc w t0 = (Inr rs, w', t) \<Longrightarrow>
         path \<notin> filePath ` set rs \<and> files w' path = Some c \<and> summaryFile w' = d"
proof (induction fs arbitrary: acc w t0)
  case Nil
  then show ?case by simp
next
  case (Cons q fs)
  obtain out w1 t1 where sf: "summarizeFile g ai w q = (out, w1, t1)"
    by (cases "summarizeFile g ai w q")
  from Cons.prems(4) sf obtain r where out: "out = Inr r"
    by (cases out) auto
  have loop: "summarizeLoop g ai fs (case r of None \<Rightarrow> acc | Some s \<Rightarrow> acc @ [s]) w1 (t0 @ t1)
                = (Inr rs, w', t)"
    using Cons.prems(4) sf out by simp
  show ?case
  proof (cases "q = path")
    case True
    from assms [OF Cons.prems(1,2)] sf True have "r = None" "w1 = w"
      using out by auto
    with Cons.IH [OF Cons.prems(1,2,3)] loop show ?thesis by simp
  next
    case False
    from summarizeFile_frame [OF sf] False Cons.prems(1,2)
    have w1: "files w1 path = Some c" "summaryFile w1 = d" by auto
    have acc: "path \<notin> filePath ` set (case r of None \<Rightarrow> acc | Some s \<Rightarrow> acc @ [s])"
      using summarizeFile_frame [OF sf] out False Cons.prems(3) by (auto split: option.splits)
    from Cons.IH [OF w1 acc loop] show ?thesis .
  qed
qed

subsection \<open>Lines and trimming\<close>

lemma split_nl_nonempty [simp]: "split_nl s \<noteq> []"
  by (induction s) (auto split: list.splits)

lemma split_nl_no_nl: "l \<in> set (split_nl s) \<Longrightarrow> nl \<notin> set l"
  by (induction s arbitrary: l) (auto split: list.splits if_splits)

lemma split_nl_single: "nl \<notin> set l \<Longrightarrow> split_nl l = [l]"
  by (induction l) auto

lemma split_nl_append: "split_nl (a @ nl # b) = split_nl a @ split_nl b"
  by (induction a) (auto split: list.splits)

lemma split_nl_join_nl:
  "xs \<noteq> [] \<Longrightarrow> split_nl (join_nl xs) = concat (map split_nl xs)"
  by (induction xs rule: join_nl.induct) (auto simp: split_nl_append)

lemma split_nl_join_nl_id:
  "xs \<noteq> [] \<Longrightarrow> \<forall>l \<in> set xs. nl \<notin> set l \<Longrightarrow> split_nl (join_nl xs) = xs"
  by (induction xs rule: join_nl.induct) (auto simp: split_nl_append split_nl_single)

lemma join_nl_Cons_Cons: "join_nl ((a # l) # ls) = a # join_nl (l # ls)"
  by (cases ls) auto

lemma join_nl_split_nl: "join_nl (split_nl s) = s"
  by (induction s) (auto split: list.splits simp: join_nl_Cons_Cons)

lemma trimStart_id: "s \<noteq> [] \<Longrightarrow> \<not> isWhiteSpace (hd s) \<Longrightarrow> trimStart s = s"
  by (cases s) (auto simp: trimStart_def)

lemma trimEnd_snoc:
  "trimEnd (s @ [c]) = (if isWhiteSpace c then trimEnd s else s @ [c])"
  by (simp add: trimEnd_def)

lemma trimEnd_append_id:
  "b \<noteq> [] \<Longrightarrow> \<not> isWhiteSpace (last b) \<Longrightarrow> trimEnd (a @ b) = a @ b"
  by (cases b rule: rev_cases) (auto simp: trimEnd_def)

lemma trimStart_append_id:
  "a \<noteq> [] \<Longrightarrow> \<not> isWhiteSpace (hd a) \<Longrightarrow> trimStart (a @ b) = a @ b"
  by (cases a) (auto simp: trimStart_def)

lemma set_trim: "x \<in> set (trim l) \<Longrightarrow> x \<in> set l"
  unfolding trim_def trimStart_def trimEnd_def
  by (metis set_dropWhileD set_rev)

lemma trimEnd_decomp: "trimEnd u @ rev (takeWhile isWhiteSpace (rev u)) = u"
  unfolding trimEnd_def
  by (metis rev_append rev_rev_ident takeWhile_dropWhile_id)

lemma trim_ends:
  assumes "trim l \<noteq> []"
  shows "\<not> isWhiteSpace (hd (trim l)) \<and> \<not> isWhiteSpace (last (trim l))"
proof -
  define u where "u = trimStart l"
  have t: "trim l = trimEnd u" by (simp add: trim_def u_def)
  have ne: "dropWhile isWhiteSpace (rev u) \<noteq> []"
    using assms t by (simp add: trimEnd_def)
  have "\<not> isWhiteSpace (hd (dropWhile isWhiteSpace (rev u)))"
    using ne by (rule hd_dropWhile)
  then have l: "\<not> isWhiteSpace (last (trim l))"
    using ne by (simp add: t trimEnd_def last_rev)
  have "u \<noteq> []" using ne by auto
  then have "\<not> isWhiteSpace (hd u)"
    unfolding u_def trimStart_def by (rule hd_dropWhile)
  moreover have "hd u = hd (trimEnd u)"
    using trimEnd_decomp [of u] assms t by (metis hd_append2)
  ultimately show ?thesis using l t by simp
qed

lemma trim_idem: "trim (trim l) = trim l"
proof (cases "trim l = []")
  case True
  have "trim [] = []" by (simp add: trim_def trimStart_def trimEnd_def)
  with True show ?thesis by simp
next
  case False
  from trim_ends [OF False] False show ?thesis
    using trimStart_id [of "trim l"] trimEnd_append_id [of "trim l" "[]"]
    by (simp add: trim_def [of "trim l"])
qed

lemma concat_split_trim:
  "\<forall>l \<in> set ls. nl \<notin> set l \<Longrightarrow> concat (map split_nl (map trim ls)) = map trim ls"
proof (induction ls)
  case Nil
  then show ?case by simp
next
  case (Cons l ls)
  then have "nl \<notin> set (trim l)" using set_trim by fastforce
  with Cons show ?case by (simp add: split_nl_single)
qed

text \<open>The markers of a dialect.\<close>

lemma dialect_cases:
  assumes "getComponents path = (Some h, Some f, Some x)"
  shows "(h = ''/** AUTO-SUMMARY **'' \<and> f = ''*** END-SUMMARY **/'' \<and> x = ''   '')
       \<or> (h = ''### AUTO-SUMMARY ###'' \<and> f = ''### END-SUMMARY ###'' \<and> x = ''#  '')"
  using assms by (auto simp: getComponents_def Let_def split: if_splits)

lemma dialect_facts:
  assumes "getComponents path = (Some h, Some f, Some x)"
  shows "h \<noteq> []" "\<not> isWhiteSpace (hd h)" "nl \<notin> set h"
    "f \<noteq> []" "\<not> isWhiteSpace (last f)" "nl \<notin> set f"
    "nl \<notin> set x" "h \<noteq> f" "f \<noteq> x" "trim h = h" "trim f = f"
  using dialect_cases [OF assms]
  by (auto simp: isWhiteSpace_def nl_def trim_def trimStart_def trimEnd_def)

subsection \<open>The lines of a prefixed content\<close>

lemma bodyLines_cases: "l \<in> set (bodyLines x s) \<Longrightarrow> l = x \<or> l = []"
  by (auto simp: bodyLines_def)

lemma bodyLines_nonempty: "bodyLines x s \<noteq> []"
  by (simp add: bodyLines_def)

lemma split_join_bodyLines:
  "nl \<notin> set x \<Longrightarrow> split_nl (join_nl (bodyLines x s)) = bodyLines x s"
  by (rule split_nl_join_nl_id) (auto simp: bodyLines_nonempty dest: bodyLines_cases)

lemma composeComment_eq:
  "composeComment (Some h) (Some f) (Some x) s
     = h @ nl # join_nl (bodyLines x s) @ nl # f @ [nl]"
  by (simp add: composeComment_def interpolate_def)

lemma trim_block:
  assumes "a \<noteq> []" "\<not> isWhiteSpace (hd a)" "f \<noteq> []" "\<not> isWhiteSpace (last f)"
  shows "trim (a @ m @ f @ [nl]) = a @ m @ f"
proof -
  have "trimStart (a @ m @ f @ [nl]) = a @ m @ f @ [nl]"
    using assms(1,2) by (rule trimStart_append_id)
  moreover have "trimEnd ((a @ m @ f) @ [nl]) = trimEnd (a @ m @ f)"
    unfolding trimEnd_snoc by (simp add: isWhiteSpace_def nl_def)
  moreover have "trimEnd ((a @ m) @ f) = (a @ m) @ f"
    using assms(3,4) by (rule trimEnd_append_id)
  ultimately show ?thesis by (simp add: trim_def)
qed

lemma split_block:
  assumes "nl \<notin> set h" "nl \<notin> set f" "nl \<notin> set x"
  shows "split_nl (h @ nl # join_nl (bodyLines x s) @ nl # f) = h # bodyLines x s @ [f]"
  using assms
  by (simp add: split_nl_append split_nl_single split_join_bodyLines)

lemma lines_prefixFileContent:
  assumes h: "h \<noteq> []" "\<not> isWhiteSpace (hd h)" "nl \<notin> set h"
    and f: "f \<noteq> []" "\<not> isWhiteSpace (last f)" "nl \<notin> set f"
    and x: "nl \<notin> set x"
  shows "split_nl (prefixFileContent c (composeComment (Some h) (Some f) (Some x) s)) =
     (if shebangPattern (hd (split_nl c))
      then hd (split_nl c) # h # bodyLines x s @ [f] @ map trim (tl (split_nl c))
      else h # bodyLines x s @ [f] @ map trim (split_nl c))"
proof -
  define ls where "ls = split_nl c"
  define B where "B = join_nl (bodyLines x s)"
  have nonl: "\<forall>l \<in> set ls. nl \<notin> set l"
    unfolding ls_def using split_nl_no_nl by blast
  have ls: "ls \<noteq> []" by (simp add: ls_def)
  have tl: "\<forall>l \<in> set (tl ls). nl \<notin> set l"
    using nonl ls by (metis list.set_sel(2))
  show ?thesis
  proof (cases "shebangPattern (hd ls)")
    case True
    then obtain r where l0: "hd ls = CHR ''#'' # r"
      by (cases "hd ls") (auto simp: shebangPattern_def)
    have l0nl: "nl \<notin> set (hd ls)" using nonl ls by simp
    have "trim (hd ls @ (nl # h @ nl # B @ [nl]) @ f @ [nl]) = hd ls @ (nl # h @ nl # B @ [nl]) @ f"
      by (rule trim_block) (use l0 f in \<open>auto simp: isWhiteSpace_def\<close>)
    then have tr: "trim (hd ls @ nl # composeComment (Some h) (Some f) (Some x) s)
             = hd ls @ nl # h @ nl # B @ nl # f"
      by (simp add: composeComment_eq B_def)
    have "split_nl (hd ls @ nl # h @ nl # B @ nl # f) = hd ls # h # bodyLines x s @ [f]"
      using l0nl split_block [OF h(3) f(3) x, of s]
      by (simp add: split_nl_append [of "hd ls"] split_nl_single B_def)
    with tr True show ?thesis
      using concat_split_trim [OF tl]
      by (simp add: prefixFileContent_def Let_def ls_def [symmetric] split_nl_join_nl)
  next
    case False
    have "trim (h @ (nl # B @ [nl]) @ f @ [nl]) = h @ (nl # B @ [nl]) @ f"
      using h(1,2) f(1,2) by (rule trim_block)
    then have tr: "trim (composeComment (Some h) (Some f) (Some x) s) = h @ nl # B @ nl # f"
      by (simp add: composeComment_eq B_def)
    with False show ?thesis
      using concat_split_trim [OF nonl] split_block [OF h(3) f(3) x, of s]
      by (simp add: prefixFileContent_def Let_def ls_def [symmetric] split_nl_join_nl B_def)
  qed
qed

subsection \<open>Indices\<close>

lemma indexOf_ge: "-1 \<le> indexOf xs x"
  by (induction xs) (auto simp: Let_def)

lemma indexOf_minus1: "indexOf xs x = -1 \<longleftrightarrow> x \<notin> set xs"
proof (induction xs)
  case Nil
  then show ?case by simp
next
  case (Cons y ys)
  then show ?case using indexOf_ge [of ys x] by (auto simp: Let_def)
qed

lemma indexOf_nth:
  assumes "0 \<le> indexOf xs x"
  shows "nat (indexOf xs x) < length xs \<and> xs ! nat (indexOf xs x) = x"
  using assms
proof (induction xs)
  case Nil
  then show ?case by simp
next
  case (Cons y ys)
  show ?case
  proof (cases "y = x")
    case True
    then show ?thesis by simp
  next
    case False
    with Cons.prems have i: "0 \<le> indexOf ys x" "indexOf (y # ys) x = indexOf ys x + 1"
      using indexOf_ge [of ys x] by (auto simp: Let_def split: if_splits)
    then have n: "nat (indexOf (y # ys) x) = Suc (nat (indexOf ys x))" by simp
    from Cons.IH [OF i(1)] show ?thesis
      unfolding n by simp
  qed
qed

lemma indexOf_append_hit: "x \<notin> set pre \<Longrightarrow> indexOf (pre @ x # post) x = int (length pre)"
  by (induction pre) (auto simp: Let_def)

lemma indexOf_decomp:
  assumes "0 \<le> indexOf xs x"
  shows "nat (indexOf xs x) < length xs
       \<and> xs = take (nat (indexOf xs x)) xs @ x # drop (nat (indexOf xs x) + 1) xs
       \<and> x \<notin> set (take (nat (indexOf xs x)) xs)"
  using assms
proof (induction xs)
  case Nil
  then show ?case by simp
next
  case (Cons y ys)
  show ?case
  proof (cases "y = x")
    case True
    then show ?thesis by simp
  next
    case False
    with Cons.prems have i: "0 \<le> indexOf ys x" "indexOf (y # ys) x = indexOf ys x + 1"
      using indexOf_ge [of ys x] by (auto simp: Let_def split: if_splits)
    then have n: "nat (indexOf (y # ys) x) = Suc (nat (indexOf ys x))" by simp
    from Cons.IH [OF i(1)] False show ?thesis
      unfolding n by auto
  qed
qed

lemma splice_block:
  assumes "0 \<le> i" "i \<le> j" "j < int (length ls)"
  shows "splice ls i (j - i + 1) = take (nat i) ls @ drop (nat j + 1) ls"
proof -
  have "nat i + nat (j - i + 1) = nat j + 1" using assms by simp
  then show ?thesis
    using assms by (simp add: splice_def relativeIndex_def Let_def min_def max_def)
qed

subsection \<open>Counting blocks\<close>

lemma countBlocks_skip_out:
  "h \<notin> set pre \<Longrightarrow> countBlocks h f False (pre @ r) = countBlocks h f False r"
  by (induction pre) auto

lemma countBlocks_skip_in:
  "f \<notin> set body \<Longrightarrow> countBlocks h f True (body @ r) = countBlocks h f True r"
  by (induction body) auto

lemma countBlocks_none: "h \<notin> set ls \<Longrightarrow> countBlocks h f False ls = 0"
  by (induction ls) auto

lemma markerFree_notin:
  "markerFree h f ls \<Longrightarrow> trim h = h \<Longrightarrow> trim f = f \<Longrightarrow> h \<notin> set ls \<and> f \<notin> set ls"
  by (auto simp: markerFree_def list_all_iff)

lemma markerFree_append [simp]:
  "markerFree h f (xs @ ys) \<longleftrightarrow> markerFree h f xs \<and> markerFree h f ys"
  by (simp add: markerFree_def)

lemma markerFree_map_trim [simp]: "markerFree h f (map trim ls) = markerFree h f ls"
  by (simp add: markerFree_def list_all_iff trim_idem)

lemma markerFree_tl: "markerFree h f ls \<Longrightarrow> markerFree h f (tl ls)"
  by (cases ls) (auto simp: markerFree_def)

lemma markerFree_hd: "markerFree h f ls \<Longrightarrow> ls \<noteq> [] \<Longrightarrow> markerFree h f [hd ls]"
  by (cases ls) (auto simp: markerFree_def)

lemma tidy_blockCount:
  assumes "tidy h f c" "trim h = h" "trim f = f"
  shows "blockCount h f c \<le> 1"
proof -
  define ls where "ls = split_nl c"
  define i where "i = indexOf ls h"
  define j where "j = indexOf ls f"
  from assms(1) consider (free) "markerFree h f ls"
    | (block) "0 \<le> i" "i < j" "markerFree h f (take (nat i) ls)" "markerFree h f (drop (nat j + 1) ls)"
    by (auto simp: tidy_def Let_def ls_def i_def j_def)
  then show ?thesis
  proof cases
    case free
    then have "h \<notin> set ls" using markerFree_notin assms(2,3) by blast
    then show ?thesis by (simp add: blockCount_def ls_def [symmetric] countBlocks_none)
  next
    case block
    from indexOf_decomp [of ls h] block(1)
    have di: "ls = take (nat i) ls @ h # drop (nat i + 1) ls" "h \<notin> set (take (nat i) ls)"
      by (auto simp: i_def)
    from indexOf_decomp [of ls f] block(1,2)
    have dj: "nat j < length ls" "ls = take (nat j) ls @ f # drop (nat j + 1) ls" "f \<notin> set (take (nat j) ls)"
      by (auto simp: j_def)
    from indexOf_nth [of ls h] block(1) have hi: "nat i < length ls" "ls ! nat i = h"
      by (auto simp: i_def)
    define tj where "tj = take (nat j) ls"
    define body where "body = drop (Suc (nat i)) tj"
    have ij: "nat i < nat j" using block(1,2) by simp
    have len: "nat i < length tj" using ij dj(1) by (simp add: tj_def)
    have "tj = take (nat i) tj @ tj ! nat i # body"
      unfolding body_def using len by (rule id_take_nth_drop)
    moreover have "take (nat i) tj = take (nat i) ls"
    proof -
      have "min (nat i) (nat j) = nat i" using ij by simp
      then show ?thesis by (simp add: tj_def)
    qed
    moreover have "tj ! nat i = h"
      using ij hi(2) by (simp add: tj_def)
    ultimately have tj: "tj = take (nat i) ls @ h # body" by simp
    from dj(3) tj have fb: "f \<notin> set body" by (simp add: tj_def [symmetric])
    from dj(2) tj have ls: "ls = take (nat i) ls @ h # body @ f # drop (nat j + 1) ls"
      by (simp add: tj_def [symmetric])
    have post: "h \<notin> set (drop (nat j + 1) ls)"
      using markerFree_notin [OF block(4) assms(2,3)] by simp
    have "countBlocks h f False ls
        = countBlocks h f False (h # body @ f # drop (nat j + 1) ls)"
      using countBlocks_skip_out [OF di(2), of f "h # body @ f # drop (nat j + 1) ls"] ls by simp
    also have "\<dots> = countBlocks h f True (f # drop (nat j + 1) ls)"
      using countBlocks_skip_in [OF fb] by simp
    also have "\<dots> = 1"
      using countBlocks_none [OF post] by simp
    finally show ?thesis by (simp add: blockCount_def ls_def [symmetric])
  qed
qed

subsection \<open>Tidy contents\<close>

lemma markerFree_empty_line: "h \<noteq> [] \<Longrightarrow> f \<noteq> [] \<Longrightarrow> markerFree h f [[]]"
  by (auto simp: markerFree_def trim_def trimStart_def trimEnd_def)

lemma markerFree_take: "markerFree h f ls \<Longrightarrow> markerFree h f (take n ls)"
  by (auto simp: markerFree_def list_all_iff dest: in_set_takeD)

lemma markerFree_drop: "markerFree h f ls \<Longrightarrow> markerFree h f (drop n ls)"
  by (auto simp: markerFree_def list_all_iff dest: in_set_dropD)

lemma removed_markerFree:
  assumes "tidy h f c" "trim h = h" "trim f = f" "h \<noteq> []" "f \<noteq> []"
  shows "markerFree h f (split_nl (removeSummaryFromFileContent c h f))"
proof -
  define ls where "ls = split_nl c"
  define i where "i = indexOf ls h"
  define j where "j = indexOf ls f"
  from assms(1) consider (free) "markerFree h f ls"
    | (block) "0 \<le> i" "i < j" "markerFree h f (take (nat i) ls)" "markerFree h f (drop (nat j + 1) ls)"
    by (auto simp: tidy_def Let_def ls_def i_def j_def)
  then show ?thesis
  proof cases
    case free
    then have "h \<notin> set ls" using markerFree_notin assms(2,3) by blast
    then have "indexOf ls h = -1" by (simp add: indexOf_minus1)
    with free show ?thesis
      by (simp add: removeSummaryFromFileContent_def Let_def ls_def [symmetric])
  next
    case block
    define R where "R = take (nat i) ls @ drop (nat j + 1) ls"
    have mf: "markerFree h f R" using block(3,4) by (simp add: R_def)
    have "0 \<le> j" using block(1,2) by simp
    then have "nat j < length ls"
      using indexOf_nth [of ls f] by (simp add: j_def)
    then have jl: "j < int (length ls)" by simp
    have sp: "splice ls i (j - i + 1) = R"
      unfolding R_def using block(1,2) jl by (intro splice_block) auto
    have rm: "removeSummaryFromFileContent c h f = join_nl R"
      using block(1,2) sp
      by (simp add: removeSummaryFromFileContent_def Let_def ls_def [symmetric]
          i_def [symmetric] j_def [symmetric])
    show ?thesis
    proof (cases "R = []")
      case True
      then show ?thesis using rm markerFree_empty_line [OF assms(4,5)] by simp
    next
      case False
      have "\<forall>l \<in> set R. nl \<notin> set l"
        unfolding R_def ls_def using split_nl_no_nl
        by (auto dest: in_set_takeD in_set_dropD)
      with False have "split_nl (join_nl R) = R" by (rule split_nl_join_nl_id)
      with mf rm show ?thesis by simp
    qed
  qed
qed

lemma tidy_blockI:
  assumes "split_nl c = pre @ h # body @ f # post"
    and "h \<notin> set pre" "f \<notin> set pre" "f \<notin> set body" "h \<noteq> f"
    and "markerFree h f pre" "markerFree h f post"
  shows "tidy h f c"
proof -
  have i: "indexOf (split_nl c) h = int (length pre)"
    unfolding assms(1) using assms(2) by (rule indexOf_append_hit)
  have "f \<notin> set (pre @ h # body)" using assms(3,4,5) by auto
  then have "indexOf ((pre @ h # body) @ f # post) f = int (length (pre @ h # body))"
    by (rule indexOf_append_hit)
  then have j: "indexOf (split_nl c) f = int (length pre + 1 + length body)"
    by (simp add: assms(1))
  have n1: "nat (int (length pre)) = length pre" by simp
  have n2: "nat (int (length pre + 1 + length body)) + 1 = Suc (Suc (length pre + length body))"
    by simp
  have tk: "take (length pre) (split_nl c) = pre" by (simp add: assms(1))
  have dr: "drop (Suc (Suc (length pre + length body))) (split_nl c) = post"
    by (simp add: assms(1) drop_Cons')
  have "0 \<le> int (length pre) \<and> int (length pre) < int (length pre + 1 + length body)
      \<and> markerFree h f (take (nat (int (length pre))) (split_nl c))
      \<and> markerFree h f (drop (nat (int (length pre + 1 + length body)) + 1) (split_nl c))"
    unfolding n1 n2 tk dr using assms(6,7) by simp
  then show ?thesis
    unfolding tidy_def Let_def i j by blast
qed

lemma rewrite_tidy:
  assumes d: "getComponents path = (Some h, Some f, Some x)" and t: "tidy h f c"
  shows "tidy h f (prefixFileContent (removeSummaryFromFileContent c h f)
                     (composeComment (Some h) (Some f) (Some x) s))"
proof -
  note df = dialect_facts [OF d]
  define c0 where "c0 = removeSummaryFromFileContent c h f"
  define ls0 where "ls0 = split_nl c0"
  have mf: "markerFree h f ls0"
    unfolding ls0_def c0_def using t df(10,11,1,4) by (rule removed_markerFree)
  have ne: "ls0 \<noteq> []" by (simp add: ls0_def)
  have fb: "f \<notin> set (bodyLines x s)"
    using df(4,9) by (auto dest: bodyLines_cases)
  have N: "split_nl (prefixFileContent c0 (composeComment (Some h) (Some f) (Some x) s)) =
     (if shebangPattern (hd ls0)
      then [hd ls0] @ h # bodyLines x s @ f # map trim (tl ls0)
      else [] @ h # bodyLines x s @ f # map trim ls0)"
    using lines_prefixFileContent [OF df(1,2,3) df(4,5,6) df(7), of c0 s]
    by (simp add: ls0_def)
  show ?thesis
  proof (cases "shebangPattern (hd ls0)")
    case True
    have hd: "markerFree h f [hd ls0]" using mf ne by (rule markerFree_hd)
    then have "h \<notin> set [hd ls0]" "f \<notin> set [hd ls0]"
      using markerFree_notin df(10,11) by blast+
    moreover have "markerFree h f (map trim (tl ls0))"
      using mf by (simp add: markerFree_tl)
    ultimately show ?thesis
      unfolding c0_def [symmetric]
      using N True hd fb df(8)
      by (intro tidy_blockI [where pre = "[hd ls0]" and body = "bodyLines x s"
            and post = "map trim (tl ls0)"]) auto
  next
    case False
    have "markerFree h f (map trim ls0)" using mf by simp
    then show ?thesis
      unfolding c0_def [symmetric]
      using N False fb df(8)
      by (intro tidy_blockI [where pre = "[]" and body = "bodyLines x s"
            and post = "map trim ls0"]) (auto simp: markerFree_def)
  qed
qed

lemma summarizeFile_content:
  assumes "summarizeFile g ai w path = (out, w', t)"
    and "files w path = Some c"
    and "getComponents path = (Some h, Some f, Some x)"
  shows "files w' path = Some c
       \<or> (\<exists>s. files w' path = Some (prefixFileContent (removeSummaryFromFileContent c h f)
                                      (composeComment (Some h) (Some f) (Some x) s)))"
  using assms
  by (auto simp: summarizeFile_def Let_def split: sum.splits option.splits if_splits prod.splits)

lemma summarizeFile_tidy:
  assumes "getComponents path = (Some h, Some f, Some x)"
    and "files w path = Some c" and "tidy h f c"
  shows "\<exists>c'. files (fst (snd (summarizeFile g ai w path))) path = Some c' \<and> tidy h f c'"
proof -
  obtain out w' t where sf: "summarizeFile g ai w path = (out, w', t)"
    by (cases "summarizeFile g ai w path")
  from summarizeFile_content [OF sf assms(2,1)] rewrite_tidy [OF assms(1,3)] assms(3)
  show ?thesis by (auto simp: sf)
qed

subsection \<open>Extraction\<close>

text \<open>Every file that \<^const>\<open>summarizeFile\<close> rewrites has a dialect.\<close>

lemma written_files_have_dialect:
  assumes "getFileEnding p \<in> set allowedExtensions" "getFileEnding p \<notin> set embedExclusions"
  shows "\<exists>h f x. getComponents p = (Some h, Some f, Some x)"
  using assms by (auto simp: allowedExtensions_def embedExclusions_def getComponents_def)

text \<open>
  Removing the first occurrence strips the prefix of a line that starts with it, and leaves a
  line without it as it is.
\<close>

lemma replace_leading: "prefix p l \<Longrightarrow> replace l p [] = drop (length p) l"
  by (cases l) auto

lemma replace_absent: "\<not> includesStr l p \<Longrightarrow> replace l p [] = l"
  by (induction l) auto

text \<open>Without a header line and a footer line the slice is all lines but the last.\<close>

lemma regexExtractSummary_no_marker_lines:
  assumes "h \<notin> set (split_nl c)" "f \<notin> set (split_nl c)"
  shows "regexExtractSummary p c h f x
           = join_nl (map (\<lambda>line. replace line x []) (butlast (split_nl c)))"
proof -
  have "indexOf (split_nl c) h = -1" "indexOf (split_nl c) f = -1"
    using assms by (simp_all add: indexOf_minus1)
  moreover have "nat (int (length (split_nl c)) - 1) = length (split_nl c) - 1"
    by linarith
  ultimately show ?thesis
    by (simp add: regexExtractSummary_def slice_def relativeIndex_def Let_def butlast_conv_take)
qed

text \<open>With the header line before the footer line it is the lines between them.\<close>

lemma regexExtractSummary_between:
  assumes "split_nl c = pre @ h # body @ f # post"
    and "h \<notin> set pre" "f \<notin> set pre" "f \<notin> set body" "h \<noteq> f"
  shows "regexExtractSummary p c h f x = join_nl (map (\<lambda>line. replace line x []) body)"
proof -
  have i: "indexOf (split_nl c) h = int (length pre)"
    unfolding assms(1) using assms(2) by (rule indexOf_append_hit)
  have "f \<notin> set (pre @ h # body)" using assms(3,4,5) by auto
  then have "indexOf ((pre @ h # body) @ f # post) f = int (length (pre @ h # body))"
    by (rule indexOf_append_hit)
  then have j: "indexOf (split_nl c) f = int (length pre + 1 + length body)"
    by (simp add: assms(1))
  have "relativeIndex (int (length (split_nl c))) (int (length pre) + 1) = Suc (length pre)"
    "relativeIndex (int (length (split_nl c))) (int (length pre + 1 + length body))
       = Suc (length pre + length body)"
    unfolding relativeIndex_def by (simp_all add: assms(1) min_def)
  then have "slice (split_nl c) (int (length pre) + 1) (int (length pre + 1 + length body)) = body"
    unfolding slice_def Let_def by (simp add: assms(1))
  then show ?thesis
    by (simp add: regexExtractSummary_def Let_def i j)
qed

section \<open>The claims\<close>

text \<open>
  C2. The claim: \<^verbatim>\<open>compile\<close> writes one JSON object that maps each file path to an object
  \<^verbatim>\<open>{filePath, summary}\<close>. On the example of the claim, \<^const>\<open>compileSummaries\<close> writes the
  object whose members are the summary strings \<^verbatim>\<open>S1\<close> and \<^verbatim>\<open>S2\<close> themselves: the member
  of \<^verbatim>\<open>a.ts\<close> is not the object the claim expects, and \<^const>\<open>capturedSummary\<close>, which reads
  \<^verbatim>\<open>capturedSummaries[filePath].summary\<close>, finds no summary in the written document.
\<close>

theorem compileSummaries_example:
  "compileSummaries [\<lparr>filePath = ''a.ts'', summary = JStr ''S1''\<rparr>,
                     \<lparr>filePath = ''b.yml'', summary = JStr ''S2''\<rparr>] w
     = (w\<lparr>summaryFile := Parsed (JObj [(''a.ts'', JStr ''S1''), (''b.yml'', JStr ''S2'')])\<rparr>,
        [WriteSummary (JObj [(''a.ts'', JStr ''S1''), (''b.yml'', JStr ''S2'')])])
   \<and> getProp (JObj [(''a.ts'', JStr ''S1''), (''b.yml'', JStr ''S2'')]) ''a.ts''
       \<noteq> Some (JObj [(''filePath'', JStr ''a.ts''), (''summary'', JStr ''S1'')])
   \<and> capturedSummary (JObj [(''a.ts'', JStr ''S1''), (''b.yml'', JStr ''S2'')]) ''a.ts'' = None"
  by (simp add: compileSummaries_def summaryObject_def capturedSummary_def)

text \<open>
  C3. The claim: whenever the oracle call returns no usable content (no response, or an empty
  or absent message content), annotating the file fails with an error. It is false for the
  empty and the absent content: \<^const>\<open>getSummaryFromAI\<close> then returns the placeholder
  \<^verbatim>\<open>No summary provided\<close>, and \<^const>\<open>summarizeFile\<close> completes with it.
\<close>

theorem empty_content_completes_with_placeholder:
  "fst (summarizeFile (Generator None)
          (\<lambda>m. Resolved (Some (Response [Choice (Some (Message (Some [])))])))
          \<lparr>files = [''a.ts'' \<mapsto> ''x''], summaryFile = Absent\<rparr> ''a.ts'')
     = Inr (Some \<lparr>filePath = ''a.ts'', summary = JStr ''No summary provided''\<rparr>)
   \<and> fst (summarizeFile (Generator None)
          (\<lambda>m. Resolved (Some (Response [Choice (Some (Message None))])))
          \<lparr>files = [''a.ts'' \<mapsto> ''x''], summaryFile = Absent\<rparr> ''a.ts'')
     = Inr (Some \<lparr>filePath = ''a.ts'', summary = JStr ''No summary provided''\<rparr>)"
  by (simp add: model_defs Let_def)

text \<open>
  C3, amended. Whenever the oracle is called for a file and the call is rejected, resolves to
  no response, or resolves to a response without choices, \<^const>\<open>summarizeFile\<close> fails with an
  error, leaves the world as it was and writes no file.
\<close>

theorem oracle_failure_fails_annotate:
  assumes "files w path = Some c"
    and "ai (userMessage c) = Rejected \<or> ai (userMessage c) = Resolved None
           \<or> ai (userMessage c) = Resolved (Some (Response []))"
    and "summarizeFile g ai w path = (out, w', t)"
    and "OracleCall (userMessage c) \<in> set t"
  shows "(\<exists>e. out = Inl e) \<and> w' = w \<and> (\<forall>p c'. WriteFile p c' \<notin> set t)"
proof -
  obtain e where e: "getSummaryFromAI ai path c = Inl e"
    using getSummaryFromAI_fails [of ai c path] assms(2) by blast
  obtain r evs where ex: "getExistingCapturedSummaries w = (r, evs)"
    by (cases "getExistingCapturedSummaries w")
  have evs: "evs = [PathExists summaryFilePath] \<or> evs = [PathExists summaryFilePath, ReadFile summaryFilePath]"
    using getExisting_cases [OF ex] .
  show ?thesis
    using assms(1,3,4) e ex evs
    by (auto simp: summarizeFile_def Let_def split: sum.splits option.splits if_splits prod.splits)
qed

theorem oracle_failure_fails_annotate_witness:
  "files \<lparr>files = [''a.ts'' \<mapsto> ''x''], summaryFile = Absent\<rparr> ''a.ts'' = Some ''x''
   \<and> summarizeFile (Generator None) (\<lambda>m. Resolved None)
        \<lparr>files = [''a.ts'' \<mapsto> ''x''], summaryFile = Absent\<rparr> ''a.ts''
      = (Inl FailedToGenerate, \<lparr>files = [''a.ts'' \<mapsto> ''x''], summaryFile = Absent\<rparr>,
         [ReadFile ''a.ts'', PathExists summaryFilePath, OracleCall (userMessage ''x'')])
   \<and> (\<exists>e. (Inl FailedToGenerate :: error + result option) = Inl e)
   \<and> (\<forall>p c'. WriteFile p c'
         \<notin> set [ReadFile ''a.ts'', PathExists summaryFilePath, OracleCall (userMessage ''x'')])"
proof -
  have run: "summarizeFile (Generator None) (\<lambda>m. Resolved None)
        \<lparr>files = [''a.ts'' \<mapsto> ''x''], summaryFile = Absent\<rparr> ''a.ts''
      = (Inl FailedToGenerate, \<lparr>files = [''a.ts'' \<mapsto> ''x''], summaryFile = Absent\<rparr>,
         [ReadFile ''a.ts'', PathExists summaryFilePath, OracleCall (userMessage ''x'')])"
    by (simp add: model_defs Let_def)
  show ?thesis
    using run oracle_failure_fails_annotate [OF _ _ run, of "''x''"] by simp
qed

text \<open>
  C9. A generator constructed without options, or with options that leave \<^verbatim>\<open>force\<close> out,
  has the force flag on. With such a generator the branch that reuses the summary found in the
  file is never taken (its log message is in no trace), and the oracle is called for every
  readable file with an allowed extension, unless the file is embed-excluded and the summary
  document, read without error, holds a summary for it.
\<close>

theorem default_force_calls_oracle:
  assumes "opts = None \<or> opts = Some \<lparr>force_option = None\<rparr>"
  shows "force (Generator opts)
    \<and> (\<forall>ai w p. Log (p @ '': Skipped. Summary exists in file. Updating Storage.'')
           \<notin> set (snd (snd (summarizeFile (Generator opts) ai w p))))
    \<and> (\<forall>ai w p c caps evs.
          files w p = Some c \<longrightarrow> getExistingCapturedSummaries w = (Inr caps, evs) \<longrightarrow>
          getFileEnding p \<in> set allowedExtensions \<longrightarrow>
          \<not> (getFileEnding p \<in> set embedExclusions \<and> capturedSummary caps p \<noteq> None) \<longrightarrow>
          OracleCall (userMessage c) \<in> set (snd (snd (summarizeFile (Generator opts) ai w p))))"
proof -
  have f: "force (Generator opts)"
    using assms by (rule Generator_default)
  show ?thesis
    using f step3_needs_force_off [OF f] force_calls_oracle [OF f] by blast
qed

theorem default_force_calls_oracle_witness:
  "force (Generator None)
   \<and> files \<lparr>files = [''a.ts'' \<mapsto> ''x''], summaryFile = Absent\<rparr> ''a.ts'' = Some ''x''
   \<and> getExistingCapturedSummaries \<lparr>files = [''a.ts'' \<mapsto> ''x''], summaryFile = Absent\<rparr>
       = (Inr (JObj []), [PathExists summaryFilePath])
   \<and> getFileEnding ''a.ts'' \<in> set allowedExtensions
   \<and> \<not> (getFileEnding ''a.ts'' \<in> set embedExclusions \<and> capturedSummary (JObj []) ''a.ts'' \<noteq> None)
   \<and> OracleCall (userMessage ''x'')
       \<in> set (snd (snd (summarizeFile (Generator None) (\<lambda>m. Rejected)
                 \<lparr>files = [''a.ts'' \<mapsto> ''x''], summaryFile = Absent\<rparr> ''a.ts'')))
   \<and> Log (''a.ts'' @ '': Skipped. Summary exists in file. Updating Storage.'')
       \<notin> set (snd (snd (summarizeFile (Generator None) (\<lambda>m. Rejected)
                 \<lparr>files = [''a.ts'' \<mapsto> ''x''], summaryFile = Absent\<rparr> ''a.ts'')))"
  using default_force_calls_oracle [of None]
  by (simp add: model_defs Let_def)

text \<open>
  C10. Take a readable file with an allowed extension that is not embed-excluded, a summary
  document that holds a summary for its path, the force flag off, and a content that contains
  neither the header nor the footer of its dialect. Then \<^const>\<open>summarizeFile\<close> returns
  \<^verbatim>\<open>undefined\<close> and changes nothing; whatever the list of project files, the results of
  \<^const>\<open>summarizeAllFiles\<close> have no entry for the file; and the document that \<^const>\<open>run\<close>
  then writes has no member for its path.
\<close>

theorem cached_unforced_returns_undefined:
  assumes "files w path = Some c"
    and "getExistingCapturedSummaries w = (Inr caps, evs)"
    and "getFileEnding path \<in> set allowedExtensions"
    and "getFileEnding path \<notin> set embedExclusions"
    and "capturedSummary caps path = Some s"
    and "\<not> force g"
    and "getComponents path = (h, f, x)"
    and "\<not> includesStr c (interpolate h)"
    and "\<not> includesStr c (interpolate f)"
  shows "summarizeFile g ai w path = (Inr None, w, ReadFile path # evs)
    \<and> (\<forall>fs rs w' t. summarizeAllFiles g ai fs w = (Inr rs, w', t) \<longrightarrow> path \<notin> filePath ` set rs)
    \<and> (\<forall>fs w' t. run g ai fs w = (Inr (), w', t) \<longrightarrow>
          (\<exists>doc. summaryFile w' = Parsed doc \<and> getProp doc path = None))"
proof -
  have one: "summarizeFile g ai w path = (Inr None, w, ReadFile path # evs)"
    using assms by (rule summarizeFile_undefined)
  have again: "\<exists>t. summarizeFile g ai w1 path = (Inr None, w1, t)"
    if "files w1 path = Some c" "summaryFile w1 = summaryFile w" for w1
  proof -
    have "getExistingCapturedSummaries w1 = (Inr caps, evs)"
      using that(2) assms(2) by (simp add: getExistingCapturedSummaries_def)
    from summarizeFile_undefined [OF that(1) this assms(3-9)] show ?thesis by blast
  qed
  have all: "path \<notin> filePath ` set rs"
    if "summarizeAllFiles g ai fs w = (Inr rs, w', t)" for fs rs w' t
    using summarizeLoop_omits [of path c "summaryFile w" g ai w "[]" fs "[]" rs w' t]
      again assms(1) that
    by (simp add: summarizeAllFiles_def)
  have doc: "\<exists>doc. summaryFile w' = Parsed doc \<and> getProp doc path = None"
    if r: "run g ai fs w = (Inr (), w', t)" for fs w' t
  proof -
    obtain out w1 t1 where a: "summarizeAllFiles g ai fs w = (out, w1, t1)"
      by (cases "summarizeAllFiles g ai fs w")
    from r a obtain rs where out: "out = Inr rs"
      by (cases out) (auto simp: run_def)
    from r a out have w': "summaryFile w' = Parsed (JObj (summaryObject rs))"
      by (auto simp: run_def compileSummaries_def)
    from all a out have "path \<notin> filePath ` set rs" by blast
    then have "getProp (JObj (summaryObject rs)) path = None"
      by (simp add: map_of_summaryObject_None)
    with w' show ?thesis by blast
  qed
  from one all doc show ?thesis by blast
qed

theorem cached_unforced_returns_undefined_witness:
  "files \<lparr>files = [''a.ts'' \<mapsto> ''x''],
          summaryFile = Parsed (JObj [(''a.ts'', JObj [(''summary'', JStr ''S'')])])\<rparr> ''a.ts''
     = Some ''x''
   \<and> getExistingCapturedSummaries
        \<lparr>files = [''a.ts'' \<mapsto> ''x''],
          summaryFile = Parsed (JObj [(''a.ts'', JObj [(''summary'', JStr ''S'')])])\<rparr>
     = (Inr (JObj [(''a.ts'', JObj [(''summary'', JStr ''S'')])]),
        [PathExists summaryFilePath, ReadFile summaryFilePath])
   \<and> getFileEnding ''a.ts'' \<in> set allowedExtensions
   \<and> getFileEnding ''a.ts'' \<notin> set embedExclusions
   \<and> capturedSummary (JObj [(''a.ts'', JObj [(''summary'', JStr ''S'')])]) ''a.ts'' = Some (JStr ''S'')
   \<and> \<not> force (Generator (Some \<lparr>force_option = Some False\<rparr>))
   \<and> getComponents ''a.ts'' = (Some ''/** AUTO-SUMMARY **'', Some ''*** END-SUMMARY **/'', Some ''   '')
   \<and> \<not> includesStr ''x'' ''/** AUTO-SUMMARY **''
   \<and> \<not> includesStr ''x'' ''*** END-SUMMARY **/''
   \<and> fst (summarizeFile (Generator (Some \<lparr>force_option = Some False\<rparr>)) (\<lambda>m. Rejected)
        \<lparr>files = [''a.ts'' \<mapsto> ''x''],
          summaryFile = Parsed (JObj [(''a.ts'', JObj [(''summary'', JStr ''S'')])])\<rparr> ''a.ts'')
     = Inr None
   \<and> fst (summarizeAllFiles (Generator (Some \<lparr>force_option = Some False\<rparr>)) (\<lambda>m. Rejected) [''a.ts'']
        \<lparr>files = [''a.ts'' \<mapsto> ''x''],
          summaryFile = Parsed (JObj [(''a.ts'', JObj [(''summary'', JStr ''S'')])])\<rparr>)
     = Inr []
   \<and> summaryFile (fst (snd (run (Generator (Some \<lparr>force_option = Some False\<rparr>)) (\<lambda>m. Rejected) [''a.ts'']
        \<lparr>files = [''a.ts'' \<mapsto> ''x''],
          summaryFile = Parsed (JObj [(''a.ts'', JObj [(''summary'', JStr ''S'')])])\<rparr>)))
     = Parsed (JObj [])"
  using cached_unforced_returns_undefined
    [of "\<lparr>files = [''a.ts'' \<mapsto> ''x''],
          summaryFile = Parsed (JObj [(''a.ts'', JObj [(''summary'', JStr ''S'')])])\<rparr>"
        "''a.ts''" "''x''"]
  by (simp add: model_defs Let_def)

text \<open>
  C4. The claim: for a path whose extension is not allowed, annotating returns a skip result,
  reads and writes no file beyond existence checks, and contributes no entry to the persisted
  cache. \<^const>\<open>summarizeFile\<close> reads the file before it looks at the extension: the read is in
  the trace, and a path with no file behind it gives an error, not a skip result. The skip
  result is a result like any other, so \<^const>\<open>run\<close> compiles it into the summary document.
\<close>

theorem unsupported_file_is_read_and_compiled:
  "ReadFile ''a.png''
     \<in> set (snd (snd (summarizeFile (Generator None) (\<lambda>m. Rejected)
               \<lparr>files = [''a.png'' \<mapsto> ''x''], summaryFile = Absent\<rparr> ''a.png'')))
   \<and> fst (summarizeFile (Generator None) (\<lambda>m. Rejected)
            \<lparr>files = Map.empty, summaryFile = Absent\<rparr> ''a.png'')
       = Inl (FileIOError ''a.png'')
   \<and> summaryFile (fst (snd (run (Generator None) (\<lambda>m. Rejected) [''a.png'']
                               \<lparr>files = [''a.png'' \<mapsto> ''x''], summaryFile = Absent\<rparr>)))
       = Parsed (JObj [(''a.png'', JStr ''Skipped. File type not supported.'')])"
  by (simp add: model_defs Let_def)

text \<open>
  C4, amended. For every path whose extension is not allowed, whose file can be read and whose
  summary document is absent or parses, \<^const>\<open>summarizeFile\<close> returns the skip result and
  leaves the world unchanged: file contents and summary document. Its effects are the read of
  the file, the existence check and (if it exists) the read of the summary document, and one
  log line: no write and no oracle call.
\<close>

theorem unsupported_file_is_skipped:
  assumes "getFileEnding path \<notin> set allowedExtensions"
    and "files w path = Some c"
    and "summaryFile w \<noteq> Unparseable"
  shows "summarizeFile g ai w path =
     (Inr (Some \<lparr>filePath = path, summary = JStr ''Skipped. File type not supported.''\<rparr>), w,
      ReadFile path # PathExists summaryFilePath
        # (if summaryFile w = Absent then [] else [ReadFile summaryFilePath])
        @ [Log (path @ '' Skipping.  File type not supported.'')])"
  using assms
  by (cases "summaryFile w")
     (simp_all add: summarizeFile_def getExistingCapturedSummaries_def Let_def)

theorem unsupported_file_is_skipped_witness:
  "getFileEnding ''a.png'' \<notin> set allowedExtensions
   \<and> files \<lparr>files = [''a.png'' \<mapsto> ''x''], summaryFile = Absent\<rparr> ''a.png'' = Some ''x''
   \<and> summaryFile \<lparr>files = [''a.png'' \<mapsto> ''x''], summaryFile = Absent\<rparr> \<noteq> Unparseable
   \<and> summarizeFile (Generator None) (\<lambda>m. Rejected)
        \<lparr>files = [''a.png'' \<mapsto> ''x''], summaryFile = Absent\<rparr> ''a.png''
     = (Inr (Some \<lparr>filePath = ''a.png'', summary = JStr ''Skipped. File type not supported.''\<rparr>),
        \<lparr>files = [''a.png'' \<mapsto> ''x''], summaryFile = Absent\<rparr>,
        [ReadFile ''a.png'', PathExists summaryFilePath,
         Log ''a.png Skipping.  File type not supported.''])"
  using unsupported_file_is_skipped
    [of "''a.png''" "\<lparr>files = [''a.png'' \<mapsto> ''x''], summaryFile = Absent\<rparr>" "''x''"
        "Generator None" "\<lambda>m. Rejected"]
  by (simp add: getFileEnding_def extname_def lastComponent_def allowedExtensions_def)

text \<open>
  C1. The claim: composing a block from a summary, splicing it into a file and extracting it
  again gives the summary back, line for line. The comment that \<^const>\<open>summarizeFile\<close> builds
  maps every line by \<^verbatim>\<open>line === '' ? `${prefix}${line}` : ''\<close>: a line with text becomes
  empty and only an empty line gets the prefix, so the text of the summary never reaches the
  file. For the summary \<^verbatim>\<open>Hello\<close> the block written has one empty body line, and the next run,
  with the force flag off, extracts the empty summary from it.
\<close>

theorem roundtrip_loses_summary:
  "summarizeFile (Generator None)
       (\<lambda>m. Resolved (Some (Response [Choice (Some (Message (Some ''Hello'')))])))
       \<lparr>files = [''a.ts'' \<mapsto> ''x''], summaryFile = Absent\<rparr> ''a.ts''
     = (Inr (Some \<lparr>filePath = ''a.ts'', summary = JStr ''Hello''\<rparr>),
        \<lparr>files = [''a.ts'' \<mapsto> join_nl [''/** AUTO-SUMMARY **'', [], ''*** END-SUMMARY **/'', ''x'']],
          summaryFile = Absent\<rparr>,
        [ReadFile ''a.ts'', PathExists summaryFilePath, OracleCall (userMessage ''x''),
         WriteFile ''a.ts'' (join_nl [''/** AUTO-SUMMARY **'', [], ''*** END-SUMMARY **/'', ''x'']),
         Log ''a.ts: Summary generated. Prepended to file.''])
   \<and> regexExtractSummary ''a.ts''
        (join_nl [''/** AUTO-SUMMARY **'', [], ''*** END-SUMMARY **/'', ''x''])
        ''/** AUTO-SUMMARY **'' ''*** END-SUMMARY **/'' ''   '' = []
   \<and> fst (summarizeFile (Generator (Some \<lparr>force_option = Some False\<rparr>)) (\<lambda>m. Rejected)
        \<lparr>files = [''a.ts'' \<mapsto> join_nl [''/** AUTO-SUMMARY **'', [], ''*** END-SUMMARY **/'', ''x'']],
          summaryFile = Absent\<rparr> ''a.ts'')
     = Inr (Some \<lparr>filePath = ''a.ts'', summary = JStr []\<rparr>)"
  by (simp add: model_defs Let_def)

text \<open>
  C5. The claim: extraction reports that there is no block when no line equals the header or
  no line equals the footer, and when the first footer line is not after the first header
  line. \<^const>\<open>regexExtractSummary\<close> has no such test (the one \<^const>\<open>removeSummaryFromFileContent\<close>
  makes), and \<^const>\<open>summarizeFile\<close> guards it by \<^verbatim>\<open>includes\<close>, which also finds a marker
  inside a longer line. With both indices \<open>-1\<close> the slice is the whole file but its last line,
  and that is returned as the summary; with the footer line first the summary is empty.
\<close>

theorem extract_without_marker_lines:
  "regexExtractSummary ''a.ts''
      (join_nl [''// markers: /** AUTO-SUMMARY ** and *** END-SUMMARY **/'', ''let x = 1'', ''run(x)''])
      ''/** AUTO-SUMMARY **'' ''*** END-SUMMARY **/'' ''   ''
     = join_nl [''// markers: /** AUTO-SUMMARY ** and *** END-SUMMARY **/'', ''let x = 1'']
   \<and> fst (summarizeFile (Generator (Some \<lparr>force_option = Some False\<rparr>)) (\<lambda>m. Rejected)
        \<lparr>files = [''a.ts'' \<mapsto> join_nl [''// markers: /** AUTO-SUMMARY ** and *** END-SUMMARY **/'',
                                          ''let x = 1'', ''run(x)'']],
          summaryFile = Absent\<rparr> ''a.ts'')
     = Inr (Some \<lparr>filePath = ''a.ts'',
                 summary = JStr (join_nl [''// markers: /** AUTO-SUMMARY ** and *** END-SUMMARY **/'',
                                          ''let x = 1''])\<rparr>)
   \<and> fst (summarizeFile (Generator (Some \<lparr>force_option = Some False\<rparr>)) (\<lambda>m. Rejected)
        \<lparr>files = [''a.ts'' \<mapsto> join_nl [''*** END-SUMMARY **/'', ''x'', ''/** AUTO-SUMMARY **'']],
          summaryFile = Absent\<rparr> ''a.ts'')
     = Inr (Some \<lparr>filePath = ''a.ts'', summary = JStr []\<rparr>)"
  by (simp add: model_defs Let_def)

text \<open>
  C6. The claim: between an exact header line and an exact footer line, extraction removes
  one leading occurrence of the prefix from each line, and never an occurrence elsewhere in the
  line. \<^const>\<open>regexExtractSummary\<close> calls \<^verbatim>\<open>line.replace(prefix, '')\<close>, which removes the first
  occurrence wherever it is: from a body line that does not start with the three spaces of the
  prefix, the three spaces in its middle are removed.
\<close>

theorem extract_strips_inner_occurrence:
  "regexExtractSummary ''a.ts''
      (join_nl [''/** AUTO-SUMMARY **'', ''Key:   value'', ''*** END-SUMMARY **/'', ''code''])
      ''/** AUTO-SUMMARY **'' ''*** END-SUMMARY **/'' ''   ''
     = ''Key:value''
   \<and> fst (summarizeFile (Generator (Some \<lparr>force_option = Some False\<rparr>)) (\<lambda>m. Rejected)
        \<lparr>files = [''a.ts'' \<mapsto> join_nl [''/** AUTO-SUMMARY **'', ''Key:   value'',
                                          ''*** END-SUMMARY **/'', ''code'']],
          summaryFile = Absent\<rparr> ''a.ts'')
     = Inr (Some \<lparr>filePath = ''a.ts'', summary = JStr ''Key:value''\<rparr>)"
  by (simp add: model_defs Let_def)

text \<open>
  C8. For every content and every comment composed for a file with a dialect: when the first
  line of the content starts with \<^verbatim>\<open>#!\<close>, \<^const>\<open>prefixFileContent\<close> appends the comment to
  that line after a line feed, so that the directive stays the first line of the result,
  unchanged, and the block follows it; otherwise the comment is a new first element and the
  block comes first. The lines of the block are the header, the body lines and the footer; the
  other lines of the content follow, each trimmed.
\<close>

theorem shebang_stays_first_line:
  assumes "getComponents path = (Some h, Some f, Some x)"
  shows "prefixFileContent c (composeComment (Some h) (Some f) (Some x) s) =
     (if shebangPattern (hd (split_nl c))
      then join_nl (map trim ((hd (split_nl c) @ nl # composeComment (Some h) (Some f) (Some x) s)
                               # tl (split_nl c)))
      else join_nl (map trim (composeComment (Some h) (Some f) (Some x) s # split_nl c)))
   \<and> split_nl (prefixFileContent c (composeComment (Some h) (Some f) (Some x) s)) =
     (if shebangPattern (hd (split_nl c))
      then hd (split_nl c) # (h # bodyLines x s @ [f]) @ map trim (tl (split_nl c))
      else (h # bodyLines x s @ [f]) @ map trim (split_nl c))"
proof -
  note df = dialect_facts [OF assms]
  have "split_nl (prefixFileContent c (composeComment (Some h) (Some f) (Some x) s)) =
     (if shebangPattern (hd (split_nl c))
      then hd (split_nl c) # h # bodyLines x s @ [f] @ map trim (tl (split_nl c))
      else h # bodyLines x s @ [f] @ map trim (split_nl c))"
    using df(1,2,3) df(4,5,6) df(7) by (rule lines_prefixFileContent)
  then show ?thesis
    by (simp add: prefixFileContent_def Let_def)
qed

theorem shebang_stays_first_line_witness:
  "getComponents ''cli.js'' = (Some ''/** AUTO-SUMMARY **'', Some ''*** END-SUMMARY **/'', Some ''   '')
   \<and> shebangPattern (hd (split_nl (join_nl [''#!/usr/bin/env node'', ''  console.log(1)''])))
   \<and> split_nl (prefixFileContent (join_nl [''#!/usr/bin/env node'', ''  console.log(1)''])
        (composeComment (Some ''/** AUTO-SUMMARY **'') (Some ''*** END-SUMMARY **/'') (Some ''   '')
           (join_nl [''Purpose'', []])))
     = [''#!/usr/bin/env node'', ''/** AUTO-SUMMARY **'', [], ''   '', ''*** END-SUMMARY **/'',
        ''console.log(1)'']
   \<and> \<not> shebangPattern (hd (split_nl (join_nl [''  console.log(1)''])))
   \<and> split_nl (prefixFileContent (join_nl [''  console.log(1)''])
        (composeComment (Some ''/** AUTO-SUMMARY **'') (Some ''*** END-SUMMARY **/'') (Some ''   '')
           (join_nl [''Purpose'', []])))
     = [''/** AUTO-SUMMARY **'', [], ''   '', ''*** END-SUMMARY **/'', ''console.log(1)'']"
  using shebang_stays_first_line [of "''cli.js''" "''/** AUTO-SUMMARY **''" "''*** END-SUMMARY **/''"
      "''   ''" "join_nl [''#!/usr/bin/env node'', ''  console.log(1)'']" "join_nl [''Purpose'', []]"]
  by (simp add: model_defs Let_def)

text \<open>
  C7. The claim: after any number of annotations the content of a file has no or one summary
  block, never two, since a block that is present is removed before the new one is inserted.
  Only the block between the first exact header line and the first exact footer line is
  removed, and \<^const>\<open>prefixFileContent\<close> then trims every line. A content whose block is
  indented by one space has no block by the exact match; after one annotation its trimmed lines
  are a second block under the new one.
\<close>

theorem indented_block_becomes_second_block:
  "blockCount ''/** AUTO-SUMMARY **'' ''*** END-SUMMARY **/''
      (join_nl ['' /** AUTO-SUMMARY **'', '' old'', '' *** END-SUMMARY **/'', ''code'']) = 0
   \<and> files (reannotate
        [(Generator None, \<lambda>m. Resolved (Some (Response [Choice (Some (Message (Some ''new'')))])), Absent)]
        \<lparr>files = [''a.ts'' \<mapsto> join_nl ['' /** AUTO-SUMMARY **'', '' old'', '' *** END-SUMMARY **/'', ''code'']],
          summaryFile = Absent\<rparr> ''a.ts'') ''a.ts''
     = Some (join_nl [''/** AUTO-SUMMARY **'', [], ''*** END-SUMMARY **/'',
                      ''/** AUTO-SUMMARY **'', ''old'', ''*** END-SUMMARY **/'', ''code''])
   \<and> blockCount ''/** AUTO-SUMMARY **'' ''*** END-SUMMARY **/''
      (join_nl [''/** AUTO-SUMMARY **'', [], ''*** END-SUMMARY **/'',
                ''/** AUTO-SUMMARY **'', ''old'', ''*** END-SUMMARY **/'', ''code'']) = 2"
  by (simp add: model_defs blockCount_def Let_def)

text \<open>
  C7, amended. Let the file have a dialect and a tidy content: no line that is a marker once
  trimmed, except the lines of at most one block and what is inside it. Then after any number
  of annotations, whatever the generator, the oracle and the summary document of each run, the
  file is there, its content is tidy, and it has no or one block.
\<close>

theorem reannotate_keeps_one_block:
  assumes "getComponents path = (Some h, Some f, Some x)"
    and "files w path = Some c" and "tidy h f c"
  shows "\<exists>c'. files (reannotate runs w path) path = Some c' \<and> tidy h f c' \<and> blockCount h f c' \<le> 1"
  using assms(2,3)
proof (induction runs arbitrary: w c)
  case Nil
  then show ?case
    using tidy_blockCount dialect_facts(10,11) [OF assms(1)] by auto
next
  case (Cons r runs)
  obtain g ai d where r: "r = (g, ai, d)" by (cases r)
  have "files (w\<lparr>summaryFile := d\<rparr>) path = Some c" using Cons.prems(1) by simp
  from summarizeFile_tidy [OF assms(1) this Cons.prems(2), of g ai]
  obtain c1 where "files (fst (snd (summarizeFile g ai (w\<lparr>summaryFile := d\<rparr>) path))) path = Some c1"
    "tidy h f c1" by blast
  from Cons.IH [OF this] show ?case by (simp add: r)
qed

theorem reannotate_keeps_one_block_witness:
  "getComponents ''a.ts'' = (Some ''/** AUTO-SUMMARY **'', Some ''*** END-SUMMARY **/'', Some ''   '')
   \<and> files \<lparr>files = [''a.ts'' \<mapsto> join_nl [''  let x = 1'', ''run(x)'']], summaryFile = Absent\<rparr> ''a.ts''
       = Some (join_nl [''  let x = 1'', ''run(x)''])
   \<and> tidy ''/** AUTO-SUMMARY **'' ''*** END-SUMMARY **/'' (join_nl [''  let x = 1'', ''run(x)''])
   \<and> files (reannotate
        [(Generator None, \<lambda>m. Resolved (Some (Response [Choice (Some (Message (Some ''one'')))])), Absent),
         (Generator None, \<lambda>m. Resolved (Some (Response [Choice (Some (Message (Some ''two'')))])),
          Parsed (JObj [(''a.ts'', JStr ''one'')]))]
        \<lparr>files = [''a.ts'' \<mapsto> join_nl [''  let x = 1'', ''run(x)'']], summaryFile = Absent\<rparr> ''a.ts'') ''a.ts''
     = Some (join_nl [''/** AUTO-SUMMARY **'', [], ''*** END-SUMMARY **/'', ''let x = 1'', ''run(x)''])
   \<and> tidy ''/** AUTO-SUMMARY **'' ''*** END-SUMMARY **/''
        (join_nl [''/** AUTO-SUMMARY **'', [], ''*** END-SUMMARY **/'', ''let x = 1'', ''run(x)''])
   \<and> blockCount ''/** AUTO-SUMMARY **'' ''*** END-SUMMARY **/''
        (join_nl [''/** AUTO-SUMMARY **'', [], ''*** END-SUMMARY **/'', ''let x = 1'', ''run(x)'']) = 1"
  using reannotate_keeps_one_block [of "''a.ts''" "''/** AUTO-SUMMARY **''" "''*** END-SUMMARY **/''"
      "''   ''" "\<lparr>files = [''a.ts'' \<mapsto> join_nl [''  let x = 1'', ''run(x)'']], summaryFile = Absent\<rparr>"
      "join_nl [''  let x = 1'', ''run(x)'']"]
  by (simp add: model_defs blockCount_def tidy_def markerFree_def Let_def)

end
